theory Spec2Isabelle
  imports Complex_Main "HOL-Library.Word" "HOL-Library.Log_Nat"
begin

unbundle bit_operations_syntax

section \<open>Data model\<close>

text \<open>
  The monitor of \<^verbatim>\<open>main.py\<close> keeps a list \<^verbatim>\<open>SITES\<close> of dictionaries with the keys
  \<^verbatim>\<open>name\<close>, \<^verbatim>\<open>url\<close>, \<^verbatim>\<open>interval\<close> (seconds) and \<^verbatim>\<open>needs_js\<close>, and a dictionary
  \<^verbatim>\<open>STATE\<close> from site names to dictionaries with the keys \<^verbatim>\<open>last_run\<close>, \<^verbatim>\<open>etag\<close> and
  \<^verbatim>\<open>last_hash\<close>, each \<^verbatim>\<open>None\<close> at start.

  Timestamps are integers counting microseconds (the resolution of \<^verbatim>\<open>datetime\<close>), so
  that the difference of two timestamps is the exact \<^verbatim>\<open>timedelta\<close>.
\<close>

record site =
  name :: string
  url :: string
  interval :: int
  needs_js :: bool

record site_state =
  last_run :: "int option"
  etag :: "string option"
  last_hash :: "int option"

text \<open>
  Exceptions are values. \<open>KeyError k\<close> is the failed lookup \<^verbatim>\<open>STATE[k]\<close>; \<open>Exception m\<close>
  is any other exception, raised by a collaborator (the HTTP client, the browser driver),
  with its message.
\<close>

datatype exn = KeyError string | Exception string

text \<open>
  The check functions return a pair \<^verbatim>\<open>(changed, reason)\<close>. The reason strings of the
  source are \<^verbatim>\<open>"not modified"\<close>, \<^verbatim>\<open>f"status {r.status_code}"\<close>, \<^verbatim>\<open>"no change"\<close>,
  \<^verbatim>\<open>"changed"\<close>, \<^verbatim>\<open>f"error: {e}"\<close> and \<^verbatim>\<open>"no driver"\<close>, in this order below.
\<close>

datatype reason = NotModified | Status int | NoChange | Changed | Error exn | NoDriver

text \<open>
  The three reasons that report a failed attempt: a non-200, non-304 status, an exception
  caught by the check, and a driver that could not be started.
\<close>

fun is_error :: "reason \<Rightarrow> bool" where
  "is_error (Status n) = True"
| "is_error (Error e) = True"
| "is_error NoDriver = True"
| "is_error NotModified = False"
| "is_error NoChange = False"
| "is_error Changed = False"

text \<open>
  What \<^verbatim>\<open>check_with_requests\<close> reads of a response: \<^verbatim>\<open>r.status_code\<close>, \<^verbatim>\<open>r.text\<close>,
  and the header \<^verbatim>\<open>ETag\<close> (\<open>None\<close> when \<^verbatim>\<open>"ETag" in r.headers\<close> is false).
\<close>

record response =
  status_code :: int
  text_of :: string
  etag_header :: "string option"

text \<open>
  The driver object is a handle. Each successful \<^verbatim>\<open>make_driver()\<close> constructs a new
  object, so handles are numbered by a counter of the objects constructed so far.
\<close>

type_synonym handle = nat

text \<open>
  The calls the program makes to its collaborators, and its calls of \<^verbatim>\<open>simple_hash\<close>,
  are recorded in a log, newest first. \<open>Dispatch s t\<close> marks the branch of the scheduler
  that checks site \<open>s\<close> with \<^verbatim>\<open>now\<close> \<open>= t\<close>; \<open>HttpGet u hs\<close> is
  \<^verbatim>\<open>requests.get(u, headers=hs, timeout=20)\<close>; \<open>SimpleHash x\<close> is \<^verbatim>\<open>simple_hash(x)\<close>;
  \<open>MakeDriver\<close> is \<^verbatim>\<open>make_driver()\<close>; \<open>DriverGet d u\<close>, \<open>PageSource d\<close> and \<open>Quit d\<close>
  are \<^verbatim>\<open>d.get(u)\<close>, \<^verbatim>\<open>d.page_source\<close> and \<^verbatim>\<open>d.quit()\<close>.
\<close>

datatype event =
    Dispatch site int
  | HttpGet string "(string \<times> string) list"
  | SimpleHash string
  | MakeDriver
  | DriverGet handle string
  | PageSource handle
  | Quit handle

text \<open>
  The global variables: the dictionary \<^verbatim>\<open>STATE\<close> and the variable \<^verbatim>\<open>driver\<close>; with
  them the counter of driver objects and the log.
\<close>

record sys =
  STATE :: "string \<rightharpoonup> site_state"
  driver :: "handle option"
  next_handle :: handle
  trace :: "event list"

text \<open>
  What the environment answers during one visit of a site by the scheduler: the reading
  of the clock, and the result of each call to a collaborator (\<open>Inl e\<close>: it raises \<open>e\<close>).
\<close>

record inp =
  clock :: int
  get_result :: "exn + response"
  make_result :: "exn + unit"
  nav_result :: "exn + unit"
  source_result :: "exn + string"
  quit_result :: "exn + unit"

definition log :: "event \<Rightarrow> sys \<Rightarrow> sys" where
  "log e s = s\<lparr>trace := e # trace s\<rparr>"

text \<open>\<^verbatim>\<open>STATE = {site["name"]: {"last_run": None, "etag": None, "last_hash": None} for site in SITES}\<close>\<close>

definition init_state :: site_state where
  "init_state = \<lparr>last_run = None, etag = None, last_hash = None\<rparr>"

fun init_STATE :: "site list \<Rightarrow> (string \<rightharpoonup> site_state)" where
  "init_STATE [] = Map.empty"
| "init_STATE (s # ss) = (init_STATE ss)(name s \<mapsto> init_state)"

definition init_sys :: "site list \<Rightarrow> sys" where
  "init_sys sites = \<lparr>STATE = init_STATE sites, driver = None, next_handle = 0, trace = []\<rparr>"

section \<open>The fingerprint\<close>

text \<open>
  \<^verbatim>\<open>def simple_hash(text): return hash(text) & 0xffffffff\<close>

  Python's built-in \<^verbatim>\<open>hash\<close> on strings is a function fixed for the life of the process
  (it is salted per process); it is the parameter \<open>H\<close>, with any integer as value.
  \<open>AND\<close> on \<open>int\<close> is the two's-complement conjunction, as Python's \<^verbatim>\<open>&\<close> is.
\<close>

definition simple_hash :: "(string \<Rightarrow> int) \<Rightarrow> string \<Rightarrow> int" where
  "simple_hash H txt = H txt AND 0xffffffff"

text \<open>A concrete hash function, for evaluating the model on examples.\<close>

definition sample_hash :: "string \<Rightarrow> int" where
  "sample_hash txt = int (length txt) - 3"

section \<open>The rendering driver\<close>

text \<open>
  \<^verbatim>\<open>make_driver()\<close> sets the options up, constructs \<^verbatim>\<open>webdriver.Chrome\<close> and sets the
  page-load timeout; any of these may raise. On success it returns a new driver object.
  The result comes with the system state, whose log has the call.
\<close>

definition make_driver :: "inp \<Rightarrow> sys \<Rightarrow> (exn + handle) \<times> sys" where
  "make_driver i s =
     (let s1 = log MakeDriver s in
      case make_result i of
        Inl e \<Rightarrow> (Inl e, s1)
      | Inr u \<Rightarrow> (Inr (next_handle s1), s1\<lparr>next_handle := Suc (next_handle s1)\<rparr>))"

text \<open>
  \<^verbatim>\<open>
  def ensure_driver():
      global driver
      if driver is None:
          try:
              driver = make_driver()
          except Exception as e:
              print("Failed to start driver:", e)
              driver = None
      return driver
  \<close>
\<close>

definition ensure_driver :: "inp \<Rightarrow> sys \<Rightarrow> handle option \<times> sys" where
  "ensure_driver i s =
     (case driver s of
        None \<Rightarrow>
          (case make_driver i s of
             (Inr d, s1) \<Rightarrow> (Some d, s1\<lparr>driver := Some d\<rparr>)
           | (Inl e, s1) \<Rightarrow> (None, s1\<lparr>driver := None\<rparr>))
      | Some d \<Rightarrow> (Some d, s))"

section \<open>The two checks\<close>

text \<open>
  The request headers of \<^verbatim>\<open>check_with_requests\<close>:
  \<^verbatim>\<open>
  headers = {}
  if state.get("etag"):
      headers["If-None-Match"] = state["etag"]
  \<close>
  The test is Python's truth value of the stored entry: \<^verbatim>\<open>None\<close> and the empty string
  are both false.
\<close>

definition request_headers :: "site_state \<Rightarrow> (string \<times> string) list" where
  "request_headers st =
     (case etag st of
        None \<Rightarrow> []
      | Some v \<Rightarrow> if v \<noteq> [] then [(''If-None-Match'', v)] else [])"

text \<open>
  \<^verbatim>\<open>
  def check_with_requests(site):
      headers = {}
      state = STATE[site["name"]]
      if state.get("etag"):
          headers["If-None-Match"] = state["etag"]
      try:
          r = requests.get(site["url"], headers=headers, timeout=20)
          if r.status_code == 304:
              return False, "not modified"
          if r.status_code != 200:
              return False, f"status {r.status_code}"
          text = r.text
          h = simple_hash(text[:5000])
          if state.get("last_hash") == h:
              return False, "no change"
          state["last_hash"] = h
          if "ETag" in r.headers:
              state["etag"] = r.headers["ETag"]
          return True, "changed"
      except Exception as e:
          return False, f"error: {e}"
  \<close>
  The lookup \<^verbatim>\<open>STATE[site["name"]]\<close> is outside the \<^verbatim>\<open>try\<close>: its \<^verbatim>\<open>KeyError\<close> reaches the
  caller. \<^verbatim>\<open>state\<close> is the dictionary stored in \<^verbatim>\<open>STATE\<close>, so the two assignments update
  \<^verbatim>\<open>STATE\<close>.
\<close>

definition check_with_requests ::
  "(string \<Rightarrow> int) \<Rightarrow> inp \<Rightarrow> site \<Rightarrow> sys \<Rightarrow> exn + ((bool \<times> reason) \<times> sys)" where
  "check_with_requests H i site s =
     (case STATE s (name site) of
        None \<Rightarrow> Inl (KeyError (name site))
      | Some state \<Rightarrow>
          (let s1 = log (HttpGet (url site) (request_headers state)) s in
           case get_result i of
             Inl e \<Rightarrow> Inr ((False, Error e), s1)
           | Inr r \<Rightarrow>
               if status_code r = 304 then Inr ((False, NotModified), s1)
               else if status_code r \<noteq> 200 then Inr ((False, Status (status_code r)), s1)
               else
                 (let h = simple_hash H (take 5000 (text_of r));
                      s2 = log (SimpleHash (take 5000 (text_of r))) s1
                  in
                    if last_hash state = Some h then Inr ((False, NoChange), s2)
                    else
                      (let state1 = state\<lparr>last_hash := Some h\<rparr>;
                           state2 = (case etag_header r of
                                       Some v \<Rightarrow> state1\<lparr>etag := Some v\<rparr>
                                     | None \<Rightarrow> state1)
                       in Inr ((True, Changed),
                               s2\<lparr>STATE := (STATE s2)(name site \<mapsto> state2)\<rparr>)))))"

text \<open>
  The handler of \<^verbatim>\<open>check_with_selenium\<close>:
  \<^verbatim>\<open>
  except Exception as e:
      print("Selenium error:", e)
      try:
          d.quit()
      except:
          pass
      global driver
      driver = None
      return False, f"error: {e}"
  \<close>
  Whether \<^verbatim>\<open>d.quit()\<close> raises or returns makes no difference.
\<close>

definition selenium_error :: "exn \<Rightarrow> handle \<Rightarrow> inp \<Rightarrow> sys \<Rightarrow> (bool \<times> reason) \<times> sys" where
  "selenium_error e d i s =
     (let s1 = log (Quit d) s;
          s2 = (case quit_result i of Inl q \<Rightarrow> s1 | Inr u \<Rightarrow> s1)
      in ((False, Error e), s2\<lparr>driver := None\<rparr>))"

text \<open>
  \<^verbatim>\<open>
  def check_with_selenium(site):
      d = ensure_driver()
      if d is None:
          return False, "no driver"
      try:
          d.get(site["url"])
          time.sleep(1)
          html = d.page_source
          h = simple_hash(html[:10000])
          state = STATE[site["name"]]
          if state.get("last_hash") == h:
              return False, "no change"
          state["last_hash"] = h
          return True, "changed"
      except Exception as e:
          ...
  \<close>
  Here the lookup \<^verbatim>\<open>STATE[site["name"]]\<close> is inside the \<^verbatim>\<open>try\<close>: its \<^verbatim>\<open>KeyError\<close> is
  handled like a driver error.
\<close>

definition check_with_selenium ::
  "(string \<Rightarrow> int) \<Rightarrow> inp \<Rightarrow> site \<Rightarrow> sys \<Rightarrow> (bool \<times> reason) \<times> sys" where
  "check_with_selenium H i site s =
     (case ensure_driver i s of
        (None, s1) \<Rightarrow> ((False, NoDriver), s1)
      | (Some d, s1) \<Rightarrow>
          (let s2 = log (DriverGet d (url site)) s1 in
           case nav_result i of
             Inl e \<Rightarrow> selenium_error e d i s2
           | Inr u \<Rightarrow>
               (let s3 = log (PageSource d) s2 in
                case source_result i of
                  Inl e \<Rightarrow> selenium_error e d i s3
                | Inr html \<Rightarrow>
                    (let h = simple_hash H (take 10000 html);
                         s4 = log (SimpleHash (take 10000 html)) s3
                     in
                       case STATE s4 (name site) of
                         None \<Rightarrow> selenium_error (KeyError (name site)) d i s4
                       | Some state \<Rightarrow>
                           if last_hash state = Some h then ((False, NoChange), s4)
                           else ((True, Changed),
                                 s4\<lparr>STATE := (STATE s4)(name site \<mapsto>
                                        state\<lparr>last_hash := Some h\<rparr>)\<rparr>)))))"

section \<open>The scheduler\<close>

text \<open>
  One day, the \<^verbatim>\<open>timedelta(days=1)\<close> of the scheduler, in microseconds.
\<close>

definition one_day :: int where
  "one_day = 86400000000"

text \<open>
  \<^verbatim>\<open>timedelta.total_seconds()\<close> is the microsecond count of the duration divided by
  \<open>10 ^ 6\<close>, a division of two Python integers with a float as result: the quotient
  rounded to the nearest number with a significand of 53 bits, a tie going to the even
  significand. For a count \<open>n\<close> of at least one microsecond the quotient is scaled by
  \<open>2 ^ 72\<close>, so that its integer part has at least 53 bits; \<open>s\<close> is the number of
  bits beyond 53, \<open>2 ^ s / 2 ^ 72\<close> the distance of two neighbouring floats there, and
  the result a multiple of it. The counts of a \<^verbatim>\<open>timedelta\<close> are far from the floats that
  overflow or lose precision near zero, which are not modelled.
\<close>

fun bit_length :: "nat \<Rightarrow> nat" where
  "bit_length n = (if n = 0 then 0 else Suc (bit_length (n div 2)))"

declare bit_length.simps [simp del]

text \<open>The integer nearest to \<open>a / b\<close>, the even one of two equally near.\<close>

definition round_half_even :: "nat \<Rightarrow> nat \<Rightarrow> nat" where
  "round_half_even a b =
     (let m = a div b; r = a mod b
      in if 2 * r > b \<or> (2 * r = b \<and> odd m) then m + 1 else m)"

definition float_quotient :: "nat \<Rightarrow> rat" where
  "float_quotient n =
     (if n = 0 then 0
      else
        (let N = n * 2 ^ 72;
             s = bit_length (N div 1000000) - 53
         in of_nat (round_half_even N (1000000 * 2 ^ s) * 2 ^ s) / 2 ^ 72))"

definition total_seconds :: "int \<Rightarrow> rat" where
  "total_seconds d = (if d < 0 then - float_quotient (nat (- d)) else float_quotient (nat d))"

text \<open>
  \<^verbatim>\<open>
  last = state.get("last_run") or (now - timedelta(days=1))
  if (now - last).total_seconds() >= site["interval"]:
  \<close>
  A \<^verbatim>\<open>datetime\<close> is always true, so \<^verbatim>\<open>or\<close> takes its right operand exactly when
  \<^verbatim>\<open>last_run\<close> is \<^verbatim>\<open>None\<close>. The float is compared with the interval, an integer as in
  \<^verbatim>\<open>SITES\<close>, by value.
\<close>

definition due :: "int \<Rightarrow> site \<Rightarrow> site_state \<Rightarrow> bool" where
  "due now site state =
     (let last = (case last_run state of Some t \<Rightarrow> t | None \<Rightarrow> now - one_day)
      in total_seconds (now - last) \<ge> of_int (interval site))"

text \<open>
  The body of the inner loop of \<^verbatim>\<open>monitor_loop\<close>, for one site:
  \<^verbatim>\<open>
  name = site["name"]
  state = STATE[name]
  now = datetime.utcnow()
  last = state.get("last_run") or (now - timedelta(days=1))
  if (now - last).total_seconds() >= site["interval"]:
      state["last_run"] = now
      print(...)
      if not site["needs_js"]:
          changed, reason = check_with_requests(site)
      else:
          changed, reason = check_with_selenium(site)
      ... print ...
      time.sleep(2)
  \<close>
  The printed lines are left out, and so are the calls of \<^verbatim>\<open>time.sleep\<close>: the time
  they take shows in the next reading of the clock, which the environment gives.
\<close>

definition visit :: "(string \<Rightarrow> int) \<Rightarrow> inp \<Rightarrow> site \<Rightarrow> sys \<Rightarrow> exn + sys" where
  "visit H i site s =
     (case STATE s (name site) of
        None \<Rightarrow> Inl (KeyError (name site))
      | Some state \<Rightarrow>
          (let now = clock i in
           if due now site state then
             (let s1 = log (Dispatch site now)
                         (s\<lparr>STATE := (STATE s)(name site \<mapsto> state\<lparr>last_run := Some now\<rparr>)\<rparr>)
              in
                if \<not> needs_js site then
                  (case check_with_requests H i site s1 of
                     Inl e \<Rightarrow> Inl e
                   | Inr (res, s2) \<Rightarrow> Inr s2)
                else
                  (case check_with_selenium H i site s1 of
                     (res, s2) \<Rightarrow> Inr s2))
           else Inr s))"

text \<open>
  One round, \<^verbatim>\<open>for site in SITES: ...\<close>, with the answers of the environment for each
  site; an exception ends it.
\<close>

fun round :: "(string \<Rightarrow> int) \<Rightarrow> (site \<times> inp) list \<Rightarrow> sys \<Rightarrow> exn + sys" where
  "round H [] s = Inr s"
| "round H ((site, i) # rest) s =
     (case visit H i site s of
        Inl e \<Rightarrow> Inl e
      | Inr s1 \<Rightarrow> round H rest s1)"

text \<open>
  \<^verbatim>\<open>while True:\<close> runs rounds for ever. A run is described by the answers of the
  environment, one list per round, and the function gives the state after these rounds:
  every finite prefix of the endless run. A round whose list is shorter than \<^verbatim>\<open>SITES\<close>
  stops after the sites it has answers for. The loop before it, which only sleeps, and
  the readings \<^verbatim>\<open>start\<close> and \<^verbatim>\<open>elapsed\<close>, which are not used, are left out.
\<close>

fun monitor_loop :: "(string \<Rightarrow> int) \<Rightarrow> site list \<Rightarrow> inp list list \<Rightarrow> sys \<Rightarrow> exn + sys" where
  "monitor_loop H sites [] s = Inr s"
| "monitor_loop H sites (r # rs) s =
     (case round H (zip sites r) s of
        Inl e \<Rightarrow> Inl e
      | Inr s1 \<Rightarrow> monitor_loop H sites rs s1)"

section \<open>Properties of a log\<close>

text \<open>
  The time of the latest dispatch of the site named \<open>n\<close> in a log (newest first), if
  there is one.
\<close>

fun last_dispatch :: "string \<Rightarrow> event list \<Rightarrow> int option" where
  "last_dispatch n [] = None"
| "last_dispatch n (Dispatch s t # es) = (if name s = n then Some t else last_dispatch n es)"
| "last_dispatch n (e # es) = last_dispatch n es"

text \<open>
  The interval floor: every dispatch of a site comes at least that site's interval after
  the dispatch before it under the same name.
\<close>

fun interval_floor :: "event list \<Rightarrow> bool" where
  "interval_floor [] = True"
| "interval_floor (Dispatch s t # es) =
     ((case last_dispatch (name s) es of
         None \<Rightarrow> True
       | Some t0 \<Rightarrow> t - t0 \<ge> interval s * 1000000)
      \<and> interval_floor es)"
| "interval_floor (e # es) = interval_floor es"

text \<open>
  The invariant of the scheduler: the log keeps the interval floor, and the last-check
  time stored for a site is the time of its latest dispatch.
\<close>

definition sched_inv :: "sys \<Rightarrow> bool" where
  "sched_inv s =
     (interval_floor (trace s)
      \<and> (\<forall>n t. last_dispatch n (trace s) = Some t
            \<longrightarrow> map_option last_run (STATE s n) = Some (Some t)))"

text \<open>
  The configurations of the data model: no interval is negative; and the names are
  unique, or else no interval is above \<open>2 ^ 34\<close> seconds (some 544 years).
\<close>

definition well_formed :: "site list \<Rightarrow> bool" where
  "well_formed sites =
     ((\<forall>site \<in> set sites. 0 \<le> interval site)
      \<and> (distinct (map name sites) \<or> (\<forall>site \<in> set sites. interval site \<le> 2 ^ 34)))"

text \<open>
  A second invariant of the scheduler: a site with a last-check time has an interval of
  at most \<open>2 ^ 34\<close> seconds.
\<close>

definition checked_bounded :: "site list \<Rightarrow> sys \<Rightarrow> bool" where
  "checked_bounded sites s =
     (\<forall>site \<in> set sites. \<forall>t. map_option last_run (STATE s (name site)) = Some (Some t)
        \<longrightarrow> interval site \<le> 2 ^ 34)"

text \<open>The dispatches of a log, each with the name of its site and its time.\<close>

fun dispatches :: "event list \<Rightarrow> (string \<times> int) list" where
  "dispatches [] = []"
| "dispatches (Dispatch s t # es) = (name s, t) # dispatches es"
| "dispatches (e # es) = dispatches es"

text \<open>The HTTP requests of a log, each with its URL and headers.\<close>

fun http_gets :: "event list \<Rightarrow> (string \<times> (string \<times> string) list) list" where
  "http_gets [] = []"
| "http_gets (HttpGet u hs # es) = (u, hs) # http_gets es"
| "http_gets (e # es) = http_gets es"

text \<open>
  The number of uses of the driver object \<open>d\<close> for rendering in a log: the calls
  \<^verbatim>\<open>d.get(...)\<close> and \<^verbatim>\<open>d.page_source\<close>.
\<close>

fun calls_on :: "handle \<Rightarrow> event list \<Rightarrow> nat" where
  "calls_on d [] = 0"
| "calls_on d (DriverGet d' u # es) = (if d' = d then Suc (calls_on d es) else calls_on d es)"
| "calls_on d (PageSource d' # es) = (if d' = d then Suc (calls_on d es) else calls_on d es)"
| "calls_on d (e # es) = calls_on d es"

text \<open>
  The handle in \<^verbatim>\<open>driver\<close>, when there is one, is an object constructed earlier.
\<close>

definition handles_ok :: "sys \<Rightarrow> bool" where
  "handles_ok s = (case driver s of None \<Rightarrow> True | Some d \<Rightarrow> d < next_handle s)"

text \<open>
  The driver object \<open>d\<close> is retired: it was constructed earlier and is no longer the one
  in \<^verbatim>\<open>driver\<close>.
\<close>

definition retired :: "handle \<Rightarrow> sys \<Rightarrow> bool" where
  "retired d s = (d < next_handle s \<and> driver s \<noteq> Some d)"

section \<open>Example configurations\<close>

text \<open>The two sites configured in the source.\<close>

definition static_site :: site where
  "static_site =
     \<lparr>name = ''StaticSite'', url = ''https://example.com/static'', interval = 300,
      needs_js = False\<rparr>"

definition js_app :: site where
  "js_app =
     \<lparr>name = ''JSApp'', url = ''https://example.com/dynamic'', interval = 600,
      needs_js = True\<rparr>"

definition SITES :: "site list" where
  "SITES = [static_site, js_app]"

text \<open>
  Two entries under one name, the first with an interval of \<open>2 ^ 34 + 1\<close> seconds: a
  configuration that is not well formed.
\<close>

definition twin_sites :: "site list" where
  "twin_sites =
     [\<lparr>name = ''Twin'', url = ''https://example.com/a'', interval = 17179869185,
       needs_js = False\<rparr>,
      \<lparr>name = ''Twin'', url = ''https://example.com/b'', interval = 300,
       needs_js = False\<rparr>]"

text \<open>A site to be checked every 86401 seconds, one second more than a day.\<close>

definition daily_site :: site where
  "daily_site =
     \<lparr>name = ''Daily'', url = ''https://example.com/daily'', interval = 86401,
      needs_js = False\<rparr>"

text \<open>
  An environment in which every call succeeds: the clock reads \<open>t\<close>, the server answers
  200 with the body and the entity tag given, the browser renders the same body.
\<close>

definition ok_inp :: "int \<Rightarrow> string \<Rightarrow> string option \<Rightarrow> inp" where
  "ok_inp t body tag =
     \<lparr>clock = t,
      get_result = Inr \<lparr>status_code = 200, text_of = body, etag_header = tag\<rparr>,
      make_result = Inr (), nav_result = Inr (), source_result = Inr body,
      quit_result = Inr ()\<rparr>"

text \<open>
  The state in which \<^verbatim>\<open>StaticSite\<close> was checked at time 0 and had the body \<^verbatim>\<open>X\<close> with
  the entity tag \<open>tag\<close>.
\<close>

definition seen :: "string \<Rightarrow> sys" where
  "seen tag =
     \<lparr>STATE = (init_STATE SITES)(''StaticSite'' \<mapsto>
        \<lparr>last_run = Some 0, etag = Some tag,
         last_hash = Some (simple_hash sample_hash ''X'')\<rparr>),
      driver = None, next_handle = 0, trace = []\<rparr>"

text \<open>
  Environments with a failure: the server answers 503 and the page load times out; the
  server answers 304; the browser cannot be started.
\<close>

definition failing :: inp where
  "failing =
     (ok_inp 0 ''X'' None)
       \<lparr>get_result := Inr \<lparr>status_code = 503, text_of = ''busy'', etag_header = Some ''v9''\<rparr>,
        nav_result := Inl (Exception ''timeout'')\<rparr>"

definition not_modified :: inp where
  "not_modified =
     (ok_inp 300000000 [] None)
       \<lparr>get_result := Inr \<lparr>status_code = 304, text_of = [], etag_header = Some ''v2''\<rparr>\<rparr>"

definition no_chrome :: inp where
  "no_chrome = (ok_inp 0 ''X'' None)\<lparr>make_result := Inl (Exception ''no chrome'')\<rparr>"

text \<open>
  A run of four rounds over the two configured sites. In the first round the page load of
  \<^verbatim>\<open>JSApp\<close> times out; the second round comes a few seconds later; the third and the
  fourth come after 300 and after about 600 seconds.
\<close>

definition example_run :: "inp list list" where
  "example_run =
     [[ok_inp 0 ''X'' (Some ''v1''), failing\<lparr>clock := 2000000\<rparr>],
      [ok_inp 7000000 ''X'' (Some ''v1''), ok_inp 9000000 ''<html>'' None],
      [ok_inp 300000000 ''X'' (Some ''v1''), ok_inp 302000000 ''<html>'' None],
      [ok_inp 595000000 ''X'' (Some ''v1''), ok_inp 602000000 ''<html>'' None]]"

section \<open>Properties of the fingerprint\<close>

lemma simple_hash_take_bit: "simple_hash H txt = take_bit 32 (H txt)"
proof -
  have "(0xffffffff :: int) = mask 32"
    by (simp add: mask_eq_exp_minus_1)
  then show ?thesis
    by (simp add: simple_hash_def take_bit_eq_mask)
qed

text \<open>
  Claim C9. The fingerprint is deterministic: two calls on identical content return
  identical digests; and every digest lies in the range from 0 up to, and excluding,
  \<open>2 ^ 32\<close>.
\<close>

theorem C9_simple_hash_deterministic_32bit:
  "(t1 = t2 \<longrightarrow> simple_hash H t1 = simple_hash H t2)
   \<and> 0 \<le> simple_hash H t1 \<and> simple_hash H t1 < 2 ^ 32"
proof -
  have "take_bit 32 (H t1) < (2::int) ^ 32"
    by (rule take_bit_int_less_exp)
  then show ?thesis
    by (simp add: simple_hash_take_bit)
qed

theorem C9_witness:
  "simple_hash sample_hash ''abc'' = simple_hash sample_hash ''abc''
   \<and> 0 \<le> simple_hash sample_hash ''abc'' \<and> simple_hash sample_hash ''abc'' < 2 ^ 32
   \<and> simple_hash sample_hash ''abc'' = 0 \<and> simple_hash sample_hash ''ab'' = 4294967295"
  using C9_simple_hash_deterministic_32bit [of "''abc''" "''abc''" sample_hash]
  by (simp add: simple_hash_def sample_hash_def)

section \<open>Properties of the clock arithmetic\<close>

lemma bit_length_floorlog: "bit_length n = floorlog 2 n"
proof (induction n rule: bit_length.induct)
  case (1 n)
  then show ?case
    by (subst bit_length.simps, subst compute_floorlog) simp
qed

lemma round_half_even_lower: "a div b \<le> round_half_even a b"
  by (simp add: round_half_even_def Let_def)

lemma round_half_even_upper:
  assumes "b > 0"
  shows "2 * round_half_even a b * b \<le> 2 * a + b"
proof -
  have a: "a = a div b * b + a mod b"
    by simp
  have r: "a mod b < b"
    using assms by simp
  have up: "2 * (a div b + 1) * b \<le> 2 * a + b" if "b \<le> 2 * (a mod b)"
  proof -
    have "2 * (a div b + 1) * b = 2 * (a div b * b) + 2 * b"
      by (simp add: algebra_simps)
    also have "\<dots> \<le> 2 * (a div b * b) + 2 * (a mod b) + b"
      using that by simp
    also have "\<dots> = 2 * a + b"
      using div_mult_mod_eq [of a b] by linarith
    finally show ?thesis .
  qed
  have down: "2 * (a div b) * b \<le> 2 * a + b"
  proof -
    have "a div b * b \<le> a"
      by simp
    moreover have "2 * (a div b) * b = 2 * (a div b * b)"
      by simp
    ultimately show ?thesis
      by linarith
  qed
  show ?thesis
    using up down by (auto simp: round_half_even_def Let_def)
qed

text \<open>The scaled quotient has at least 53 bits; \<open>s\<close> is the number of bits to drop.\<close>

lemma scale_facts:
  assumes "n > 0"
  defines "N \<equiv> n * 2 ^ 72"
  defines "s \<equiv> bit_length (N div 1000000) - 53"
  shows "2 ^ 52 * (1000000 * 2 ^ s) \<le> N"
    and "N div 1000000 < 2 ^ 106 \<Longrightarrow> s \<le> 53"
proof -
  define t where "t = N div 1000000"
  have "(2::nat) ^ 52 * 1000000 \<le> 2 ^ 72"
    by simp
  also have "\<dots> \<le> N"
    using assms(1) by (simp add: N_def)
  finally have "2 ^ 52 \<le> t"
    by (simp add: t_def less_eq_div_iff_mult_less_eq)
  then have b53: "53 \<le> floorlog 2 t"
    by (intro floorlog_geI) simp_all
  then have b: "floorlog 2 t = s + 53"
    by (simp add: s_def t_def bit_length_floorlog)
  have "t > 0"
    using \<open>2 ^ 52 \<le> t\<close> by (cases "t = 0") simp_all
  from floorlog_bounds [OF this, of 2] have "2 ^ (s + 52) \<le> t"
    by (simp add: b add.commute)
  then have "2 ^ (s + 52) * 1000000 \<le> t * 1000000"
    by simp
  also have "\<dots> \<le> N"
    by (simp add: t_def)
  finally show "2 ^ 52 * (1000000 * 2 ^ s) \<le> N"
    by (simp add: power_add mult_ac)
  show "s \<le> 53" if "N div 1000000 < 2 ^ 106"
  proof -
    from that have "floorlog 2 t \<le> 106"
      by (intro floorlog_leI) (simp_all add: t_def)
    with b show ?thesis
      by simp
  qed
qed

text \<open>The numerator of the rounded quotient, in units of \<open>2 ^ - 72\<close> seconds.\<close>

lemma float_quotient_bounds:
  assumes n: "n > 0" and I: "I \<le> 2 ^ 34"
  defines "N \<equiv> n * 2 ^ 72"
  defines "s \<equiv> bit_length (N div 1000000) - 53"
  defines "X \<equiv> round_half_even N (1000000 * 2 ^ s) * 2 ^ s"
  shows "n < I * 1000000 \<Longrightarrow> X < I * 2 ^ 72"
    and "I * 1000000 \<le> n \<Longrightarrow> I * 2 ^ 72 \<le> X"
    and "0 < X"
proof -
  define D :: nat where "D = 1000000 * 2 ^ s"
  define R where "R = round_half_even N D"
  have D: "D > 0"
    by (simp add: D_def)
  have X: "X = R * 2 ^ s"
    by (simp add: X_def R_def D_def)
  have big: "2 ^ 52 * D \<le> N"
    using scale_facts(1) [OF n] by (simp add: N_def s_def D_def)
  have low: "N div D \<le> R"
    by (simp add: R_def round_half_even_lower)
  have "2 * R * D \<le> 2 * N + D"
    unfolding R_def by (rule round_half_even_upper [OF D])
  then have up: "2000000 * X \<le> 2 * N + D"
    by (simp add: X D_def mult_ac)
  have m52: "2 ^ 52 \<le> R"
  proof -
    from big D have "2 ^ 52 \<le> N div D"
      by (simp add: less_eq_div_iff_mult_less_eq)
    with low show ?thesis
      by simp
  qed
  show "0 < X"
  proof -
    from m52 have "R > 0"
      by (cases "R = 0") simp_all
    then show ?thesis
      by (simp add: X)
  qed
  show "X < I * 2 ^ 72" if lt: "n < I * 1000000"
  proof -
    have "N < I * 1000000 * 2 ^ 72"
      using lt by (simp add: N_def)
    also have "\<dots> \<le> 2 ^ 34 * 1000000 * 2 ^ 72"
      using I by simp
    finally have "N < 2 ^ 106 * 1000000"
      by simp
    then have "N div 1000000 < 2 ^ 106"
      by (simp add: div_less_iff_less_mult)
    from scale_facts(2) [OF n] this have "s \<le> 53"
      by (simp add: N_def s_def)
    then have "(2::nat) ^ s \<le> 2 ^ 53"
      by (intro power_increasing) simp_all
    then have f2: "D < 2 * 2 ^ 72"
      by (simp add: D_def)
    from lt have "Suc n \<le> I * 1000000"
      by simp
    then have "Suc n * 2 ^ 72 \<le> I * 1000000 * 2 ^ 72"
      by (rule mult_le_mono1)
    then have f3: "N + 2 ^ 72 \<le> 1000000 * (I * 2 ^ 72)"
      by (simp add: N_def mult_ac)
    from up f2 f3 show ?thesis
      by linarith
  qed
  show "I * 2 ^ 72 \<le> X" if ge: "I * 1000000 \<le> n"
  proof (cases "s \<le> 72")
    case True
    then have split: "(2::nat) ^ 72 = 2 ^ (72 - s) * 2 ^ s"
      by (simp add: power_add [symmetric])
    have "I * 2 ^ (72 - s) * D = I * 1000000 * (2 ^ (72 - s) * 2 ^ s)"
      by (simp add: D_def mult_ac)
    also have "\<dots> = I * 1000000 * 2 ^ 72"
      by (simp only: split [symmetric])
    also have "\<dots> \<le> N"
      unfolding N_def using ge by (rule mult_le_mono1)
    finally have "I * 2 ^ (72 - s) \<le> N div D"
      using D by (simp add: less_eq_div_iff_mult_less_eq)
    with low have "I * 2 ^ (72 - s) \<le> R"
      by simp
    then have "I * 2 ^ (72 - s) * 2 ^ s \<le> R * 2 ^ s"
      by (rule mult_le_mono1)
    moreover have "I * 2 ^ (72 - s) * 2 ^ s = I * 2 ^ 72"
      by (simp only: mult.assoc split [symmetric])
    ultimately show ?thesis
      by (simp add: X)
  next
    case False
    then have "(2::nat) ^ 72 \<le> 2 ^ s"
      by (intro power_increasing) simp_all
    then have "2 ^ 52 * (2::nat) ^ 72 \<le> R * 2 ^ s"
      using m52 by (rule mult_le_mono [rotated])
    moreover have "I * 2 ^ 72 \<le> 2 ^ 34 * (2::nat) ^ 72"
      using I by (rule mult_le_mono1)
    ultimately show ?thesis
      by (simp add: X)
  qed
qed

lemma float_quotient_scaled:
  "n > 0 \<Longrightarrow>
   float_quotient n
     = of_nat (round_half_even (n * 2 ^ 72)
                 (1000000 * 2 ^ (bit_length (n * 2 ^ 72 div 1000000) - 53))
               * 2 ^ (bit_length (n * 2 ^ 72 div 1000000) - 53)) / 2 ^ 72"
  by (simp add: float_quotient_def Let_def)

lemma of_nat_div_compare:
  fixes X I :: nat
  shows "((of_nat X :: rat) / 2 ^ 72 < of_nat I) = (X < I * 2 ^ 72)"
    and "((of_nat I :: rat) \<le> of_nat X / 2 ^ 72) = (I * 2 ^ 72 \<le> X)"
    and "((0 :: rat) < of_nat X / 2 ^ 72) = (0 < X)"
proof -
  have e: "(of_nat I :: rat) * 2 ^ 72 = of_nat (I * 2 ^ 72)"
    by simp
  show "((of_nat X :: rat) / 2 ^ 72 < of_nat I) = (X < I * 2 ^ 72)"
    by (simp only: pos_divide_less_eq zero_less_power zero_less_numeral e of_nat_less_iff)
  show "((of_nat I :: rat) \<le> of_nat X / 2 ^ 72) = (I * 2 ^ 72 \<le> X)"
    by (simp only: pos_le_divide_eq zero_less_power zero_less_numeral e of_nat_le_iff)
  show "((0 :: rat) < of_nat X / 2 ^ 72) = (0 < X)"
    by simp
qed

lemma float_quotient_compare:
  assumes "n > 0" and "I \<le> 2 ^ 34"
  shows "(of_nat I \<le> float_quotient n) = (I * 1000000 \<le> n)"
    and "0 < float_quotient n"
proof -
  note b = float_quotient_bounds [OF assms]
  show "0 < float_quotient n"
    using b(3) by (simp only: float_quotient_scaled [OF assms(1)] of_nat_div_compare)
  show "(of_nat I \<le> float_quotient n) = (I * 1000000 \<le> n)"
  proof (cases "I * 1000000 \<le> n")
    case True
    with b(2) show ?thesis
      by (simp only: float_quotient_scaled [OF assms(1)] of_nat_div_compare)
  next
    case False
    then have "n < I * 1000000"
      by simp
    from b(1) [OF this] False show ?thesis
      by (simp only: float_quotient_scaled [OF assms(1)] of_nat_div_compare) simp
  qed
qed

text \<open>
  For an interval from 0 to \<open>2 ^ 34\<close> seconds the rounded quotient reaches the interval
  exactly when the microsecond count does.
\<close>

lemma total_seconds_ge_iff:
  assumes "0 \<le> I" and "I \<le> 2 ^ 34"
  shows "(of_int I \<le> total_seconds d) = (I * 1000000 \<le> d)"
proof -
  define J where "J = nat I"
  have J: "I = int J" "J \<le> 2 ^ 34"
    using assms by (simp_all add: J_def nat_le_iff)
  consider "d < 0" | "d = 0" | "d > 0"
    by linarith
  then show ?thesis
  proof cases
    case 1
    then have "0 < float_quotient (nat (- d))"
      by (intro float_quotient_compare(2) [of _ 0]) simp_all
    with 1 assms(1) show ?thesis
      by (simp add: total_seconds_def J(1))
  next
    case 2
    then show ?thesis
      using assms(1) by (simp add: total_seconds_def float_quotient_def J(1))
  next
    case 3
    then have n: "nat d > 0"
      by simp
    from float_quotient_compare(1) [OF n J(2)] 3 show ?thesis
      by (simp add: total_seconds_def J(1) le_nat_iff) 
  qed
qed

text \<open>Evaluating the rounded quotient at a numeral.\<close>

lemma bit_length_numeral:
  "bit_length (numeral (Num.Bit0 k)) = Suc (bit_length (numeral k))"
  "bit_length (numeral (Num.Bit1 k)) = Suc (bit_length (numeral k))"
  "bit_length 1 = 1" "bit_length (Suc 0) = 1" "bit_length 0 = 0"
  by (subst bit_length.simps, simp add: bit_length.simps)+

lemmas total_seconds_eval = total_seconds_def float_quotient_def round_half_even_def Let_def
  bit_length_numeral

lemma total_seconds_one_day: "total_seconds one_day = 86400"
  by (simp add: one_day_def total_seconds_eval)

text \<open>
  When a site is due: a site never checked is due exactly when its interval is at most
  one day, 86400 seconds; a site checked before, with an interval from 0 to \<open>2 ^ 34\<close>
  seconds, is due exactly when its interval has elapsed since.
\<close>

lemma due_never_checked:
  "last_run st = None \<Longrightarrow> due now site st = (interval site \<le> 86400)"
proof -
  have "(of_int (interval site) \<le> (86400 :: rat)) = (interval site \<le> 86400)"
    by (metis of_int_le_iff of_int_numeral)
  then show "last_run st = None \<Longrightarrow> due now site st = (interval site \<le> 86400)"
    by (simp add: due_def Let_def total_seconds_one_day)
qed

lemma due_checked_before:
  "0 \<le> interval site \<Longrightarrow> interval site \<le> 2 ^ 34 \<Longrightarrow> last_run st = Some t \<Longrightarrow>
   due now site st = (now - t \<ge> interval site * 1000000)"
  by (simp add: due_def Let_def total_seconds_ge_iff)

lemma due_characterised:
  "0 \<le> interval site \<Longrightarrow> interval site \<le> 2 ^ 34 \<Longrightarrow>
   due now site st =
     (case last_run st of
        None \<Rightarrow> interval site \<le> 86400
      | Some t \<Rightarrow> now - t \<ge> interval site * 1000000)"
  by (simp add: due_never_checked due_checked_before split: option.split)

section \<open>Properties of the two checks\<close>

lemma log_simps [simp]:
  "STATE (log e s) = STATE s" "driver (log e s) = driver s"
  "next_handle (log e s) = next_handle s" "trace (log e s) = e # trace s"
  by (simp_all add: log_def)

lemmas example_defs = static_site_def js_app_def SITES_def daily_site_def ok_inp_def seen_def
  init_sys_def init_state_def simple_hash_def sample_hash_def request_headers_def
  failing_def not_modified_def no_chrome_def

lemmas selenium_defs = check_with_selenium_def ensure_driver_def make_driver_def
  selenium_error_def Let_def

text \<open>
  Either check reports a change with the reason \<open>Changed\<close> only; with any other reason
  it reports no change and leaves \<^verbatim>\<open>STATE\<close> as it was. The conditional check never
  touches the driver.
\<close>

lemma requests_unchanged_or_changed:
  "(case check_with_requests H i site s of
      Inl e \<Rightarrow> STATE s (name site) = None
    | Inr ((c, r), s') \<Rightarrow>
        driver s' = driver s \<and> next_handle s' = next_handle s \<and>
        (if r = Changed then c else \<not> c \<and> STATE s' = STATE s))"
  by (simp add: check_with_requests_def Let_def split: option.split sum.split)

lemma selenium_unchanged_or_changed:
  "(case check_with_selenium H i site s of
      ((c, r), s') \<Rightarrow> (if r = Changed then c else \<not> c \<and> STATE s' = STATE s))"
  by (simp add: selenium_defs split: option.split sum.split prod.split)

text \<open>
  Claim C2, as stated, fails. \<^verbatim>\<open>StaticSite\<close> has the stored validator \<^verbatim>\<open>v1\<close> and the
  fingerprint of \<^verbatim>\<open>X\<close>; the server answers 200 with the body \<^verbatim>\<open>X\<close> again and the new
  validator \<^verbatim>\<open>v2\<close>. The check returns \<^verbatim>\<open>(False, "no change")\<close> before the assignment of
  the validator, and the validator stored in the state it returns is still \<^verbatim>\<open>v1\<close>.
\<close>

theorem C2_new_validator_not_stored:
  "check_with_requests sample_hash (ok_inp 300000000 ''X'' (Some ''v2'')) static_site (seen ''v1'')
     = Inr ((False, NoChange),
            log (SimpleHash ''X'')
              (log (HttpGet ''https://example.com/static'' [(''If-None-Match'', ''v1'')])
                 (seen ''v1'')))
   \<and> map_option etag
        (STATE (log (SimpleHash ''X'')
                  (log (HttpGet ''https://example.com/static'' [(''If-None-Match'', ''v1'')])
                     (seen ''v1''))) ''StaticSite'') = Some (Some ''v1'')
   \<and> Some (Some ''v1'') \<noteq> Some (Some ''v2'')"
  by (simp add: check_with_requests_def Let_def example_defs)

text \<open>
  Claim C2, amended. When a conditional check ends with \<^verbatim>\<open>(False, "no change")\<close>, the
  fingerprint computed being the stored one, it leaves \<^verbatim>\<open>STATE\<close> exactly as it was when
  the check began: the fingerprint and the validator of every site are the stored ones,
  also when the response carried a new validator, and the last-check time is the one the
  scheduler set before the check.
\<close>

theorem C2_no_change_keeps_state:
  "check_with_requests H i site s = Inr ((c, NoChange), s') \<Longrightarrow> \<not> c \<and> STATE s' = STATE s"
  using requests_unchanged_or_changed [where H=H and i=i and site=site and s=s] by simp

theorem C2_no_change_keeps_state_witness:
  "check_with_requests sample_hash (ok_inp 300000000 ''X'' (Some ''v2'')) static_site (seen ''v1'')
     = Inr ((False, NoChange),
            log (SimpleHash ''X'')
              (log (HttpGet ''https://example.com/static'' [(''If-None-Match'', ''v1'')])
                 (seen ''v1'')))
   \<and> STATE (log (SimpleHash ''X'')
              (log (HttpGet ''https://example.com/static'' [(''If-None-Match'', ''v1'')])
                 (seen ''v1''))) = STATE (seen ''v1'')"
proof -
  have run:
    "check_with_requests sample_hash (ok_inp 300000000 ''X'' (Some ''v2'')) static_site
       (seen ''v1'')
     = Inr ((False, NoChange),
            log (SimpleHash ''X'')
              (log (HttpGet ''https://example.com/static'' [(''If-None-Match'', ''v1'')])
                 (seen ''v1'')))"
    by (simp add: check_with_requests_def Let_def example_defs)
  from C2_no_change_keeps_state [OF run] run show ?thesis by simp
qed

text \<open>
  Claim C3. A check that ends with an error (a status that is neither 200 nor 304, an
  exception caught by the check, or no driver) leaves \<^verbatim>\<open>STATE\<close> as it was before the
  check: the stored fingerprint and validator of the site, and of every other site, are
  unchanged. This holds for the conditional check and for the rendering check.
\<close>

theorem C3_error_keeps_fingerprint_and_validator:
  "(check_with_requests H i site s = Inr ((c, r), s') \<and> is_error r \<longrightarrow> STATE s' = STATE s)
   \<and> (check_with_selenium H j page t = ((cj, rj), t') \<and> is_error rj \<longrightarrow> STATE t' = STATE t)"
  using requests_unchanged_or_changed [where H=H and i=i and site=site and s=s]
    selenium_unchanged_or_changed [where H=H and i=j and site=page and s=t]
  by (auto split: if_splits)

theorem C3_witness:
  "check_with_requests sample_hash failing static_site (seen ''v1'')
     = Inr ((False, Status 503),
            log (HttpGet ''https://example.com/static'' [(''If-None-Match'', ''v1'')])
              (seen ''v1''))
   \<and> is_error (Status 503)
   \<and> STATE (log (HttpGet ''https://example.com/static'' [(''If-None-Match'', ''v1'')])
              (seen ''v1'')) = STATE (seen ''v1'')
   \<and> check_with_selenium sample_hash failing js_app (seen ''v1'')
     = ((False, Error (Exception ''timeout'')),
        (seen ''v1'')\<lparr>next_handle := 1,
           trace := [Quit 0, DriverGet 0 ''https://example.com/dynamic'', MakeDriver]\<rparr>)
   \<and> is_error (Error (Exception ''timeout''))
   \<and> STATE ((seen ''v1'')\<lparr>next_handle := 1,
           trace := [Quit 0, DriverGet 0 ''https://example.com/dynamic'', MakeDriver]\<rparr>)
       = STATE (seen ''v1'')"
proof -
  have r1:
    "check_with_requests sample_hash failing static_site (seen ''v1'')
     = Inr ((False, Status 503),
            log (HttpGet ''https://example.com/static'' [(''If-None-Match'', ''v1'')])
              (seen ''v1''))"
    by (simp add: check_with_requests_def Let_def example_defs)
  have r2:
    "check_with_selenium sample_hash failing js_app (seen ''v1'')
     = ((False, Error (Exception ''timeout'')),
        (seen ''v1'')\<lparr>next_handle := 1,
           trace := [Quit 0, DriverGet 0 ''https://example.com/dynamic'', MakeDriver]\<rparr>)"
    by (simp add: selenium_defs example_defs log_def)
  from C3_error_keeps_fingerprint_and_validator
      [where H=sample_hash and i=failing and site=static_site and s="seen ''v1''"
        and c=False and r="Status 503" and j=failing and page=js_app and t="seen ''v1''"
        and cj=False and rj="Error (Exception ''timeout'')"
        and s'="log (HttpGet ''https://example.com/static'' [(''If-None-Match'', ''v1'')])
                  (seen ''v1'')"
        and t'="(seen ''v1'')\<lparr>next_handle := 1,
                  trace := [Quit 0, DriverGet 0 ''https://example.com/dynamic'', MakeDriver]\<rparr>"]
    r1 r2
  show ?thesis by simp
qed

text \<open>
  Claim C6. When the server answers 304 to the conditional request, the check returns
  \<^verbatim>\<open>(False, "not modified")\<close> at once: the state it returns is the state before the check
  with the HTTP request added to the log, so \<^verbatim>\<open>simple_hash\<close> is not called, and the
  stored fingerprint and validator are unchanged.
\<close>

theorem C6_not_modified_returns_at_once:
  "STATE s (name site) = Some st \<Longrightarrow> get_result i = Inr r \<Longrightarrow> status_code r = 304 \<Longrightarrow>
   check_with_requests H i site s
     = Inr ((False, NotModified), log (HttpGet (url site) (request_headers st)) s)
   \<and> STATE (log (HttpGet (url site) (request_headers st)) s) = STATE s
   \<and> trace (log (HttpGet (url site) (request_headers st)) s)
       = HttpGet (url site) (request_headers st) # trace s"
  by (simp add: check_with_requests_def Let_def)

theorem C6_witness:
  "check_with_requests sample_hash not_modified static_site (seen ''v1'')
     = Inr ((False, NotModified),
            log (HttpGet ''https://example.com/static'' [(''If-None-Match'', ''v1'')])
              (seen ''v1''))
   \<and> STATE (log (HttpGet ''https://example.com/static'' [(''If-None-Match'', ''v1'')])
              (seen ''v1'')) = STATE (seen ''v1'')
   \<and> trace (log (HttpGet ''https://example.com/static'' [(''If-None-Match'', ''v1'')])
              (seen ''v1''))
       = [HttpGet ''https://example.com/static'' [(''If-None-Match'', ''v1'')]]"
proof -
  have h1: "STATE (seen ''v1'') (name static_site)
      = Some \<lparr>last_run = Some 0, etag = Some ''v1'',
              last_hash = Some (simple_hash sample_hash ''X'')\<rparr>"
    by (simp add: seen_def static_site_def)
  have h2: "get_result not_modified
      = Inr \<lparr>status_code = 304, text_of = [], etag_header = Some ''v2''\<rparr>"
    by (simp add: not_modified_def ok_inp_def)
  have h3: "status_code \<lparr>status_code = 304, text_of = [], etag_header = Some ''v2''\<rparr> = 304"
    by simp
  from C6_not_modified_returns_at_once [OF h1 h2 h3, of sample_hash]
  show ?thesis by (simp add: static_site_def request_headers_def seen_def)
qed

text \<open>
  Claim C7. A site whose stored fingerprint is \<^verbatim>\<open>None\<close>: the first check that obtains
  content (the conditional check with a 200 response, the rendering check with a driver,
  a page load and a page source that do not raise) returns \<^verbatim>\<open>(True, "changed")\<close> and
  stores the fingerprint of the content, since \<^verbatim>\<open>None\<close> equals no digest.
\<close>

theorem C7_first_content_is_changed:
  "(STATE s (name site) = Some st \<and> last_hash st = None
      \<and> get_result i = Inr r \<and> status_code r = 200
    \<longrightarrow> (\<exists>s'. check_with_requests H i site s = Inr ((True, Changed), s')
          \<and> map_option last_hash (STATE s' (name site))
              = Some (Some (simple_hash H (take 5000 (text_of r))))))
   \<and> (STATE t (name page) = Some stj \<and> last_hash stj = None
      \<and> fst (ensure_driver j t) = Some d
      \<and> nav_result j = Inr () \<and> source_result j = Inr html
    \<longrightarrow> (\<exists>t'. check_with_selenium H j page t = ((True, Changed), t')
          \<and> map_option last_hash (STATE t' (name page))
              = Some (Some (simple_hash H (take 10000 html)))))"
proof (intro conjI impI)
  assume "STATE s (name site) = Some st \<and> last_hash st = None
      \<and> get_result i = Inr r \<and> status_code r = 200"
  then show "\<exists>s'. check_with_requests H i site s = Inr ((True, Changed), s')
          \<and> map_option last_hash (STATE s' (name site))
              = Some (Some (simple_hash H (take 5000 (text_of r))))"
    by (simp add: check_with_requests_def Let_def split: option.split)
next
  assume a: "STATE t (name page) = Some stj \<and> last_hash stj = None
      \<and> fst (ensure_driver j t) = Some d
      \<and> nav_result j = Inr () \<and> source_result j = Inr html"
  obtain t1 where e: "ensure_driver j t = (Some d, t1)"
    using a by (cases "ensure_driver j t") simp
  have st: "STATE t1 = STATE t"
    using e by (auto simp: ensure_driver_def make_driver_def Let_def
        split: option.splits sum.splits)
  show "\<exists>t'. check_with_selenium H j page t = ((True, Changed), t')
          \<and> map_option last_hash (STATE t' (name page))
              = Some (Some (simple_hash H (take 10000 html)))"
    using a e st by (simp add: check_with_selenium_def Let_def)
qed

theorem C7_witness:
  "(\<exists>s'. check_with_requests sample_hash (ok_inp 0 ''X'' (Some ''v1'')) static_site (init_sys SITES)
            = Inr ((True, Changed), s')
        \<and> map_option last_hash (STATE s' ''StaticSite'') = Some (Some 4294967294))
   \<and> (\<exists>t'. check_with_selenium sample_hash (ok_inp 0 ''<html>'' None) js_app (init_sys SITES)
            = ((True, Changed), t')
        \<and> map_option last_hash (STATE t' ''JSApp'') = Some (Some 3))"
proof -
  have h1: "STATE (init_sys SITES) (name static_site) = Some init_state \<and> last_hash init_state = None
      \<and> get_result (ok_inp 0 ''X'' (Some ''v1''))
          = Inr \<lparr>status_code = 200, text_of = ''X'', etag_header = Some ''v1''\<rparr>
      \<and> status_code \<lparr>status_code = 200, text_of = ''X'', etag_header = Some ''v1''\<rparr> = 200"
    by (simp add: example_defs)
  have h2: "STATE (init_sys SITES) (name js_app) = Some init_state \<and> last_hash init_state = None
      \<and> fst (ensure_driver (ok_inp 0 ''<html>'' None) (init_sys SITES)) = Some 0
      \<and> nav_result (ok_inp 0 ''<html>'' None) = Inr ()
      \<and> source_result (ok_inp 0 ''<html>'' None) = Inr ''<html>''"
    by (simp add: example_defs ensure_driver_def make_driver_def Let_def)
  from C7_first_content_is_changed
      [where H=sample_hash and s="init_sys SITES" and site=static_site and st=init_state
        and i="ok_inp 0 ''X'' (Some ''v1'')"
        and r="\<lparr>status_code = 200, text_of = ''X'', etag_header = Some ''v1''\<rparr>"
        and t="init_sys SITES" and page=js_app and stj=init_state
        and j="ok_inp 0 ''<html>'' None" and d=0 and html="''<html>''"]
    h1 h2
  show ?thesis by (simp add: static_site_def js_app_def simple_hash_def sample_hash_def)
qed

text \<open>
  Claim C8. When the driver is absent and its construction raises, \<^verbatim>\<open>ensure_driver\<close>
  returns \<^verbatim>\<open>None\<close> (it does not raise), the rendering check returns
  \<^verbatim>\<open>(False, "no driver")\<close>, an error, the driver stays absent and \<^verbatim>\<open>STATE\<close> is unchanged;
  and the next rendering check, whatever its site and environment, calls
  \<^verbatim>\<open>make_driver\<close> once more.
\<close>

theorem C8_construction_failure:
  "driver s = None \<Longrightarrow> make_result i = Inl e \<Longrightarrow>
   ensure_driver i s = (None, (log MakeDriver s)\<lparr>driver := None\<rparr>)
   \<and> check_with_selenium H i site s = ((False, NoDriver), (log MakeDriver s)\<lparr>driver := None\<rparr>)
   \<and> is_error NoDriver
   \<and> driver ((log MakeDriver s)\<lparr>driver := None\<rparr>) = None
   \<and> STATE ((log MakeDriver s)\<lparr>driver := None\<rparr>) = STATE s
   \<and> (\<forall>j page.
        count_list (trace (snd (check_with_selenium H j page ((log MakeDriver s)\<lparr>driver := None\<rparr>))))
          MakeDriver
        = Suc (count_list (trace ((log MakeDriver s)\<lparr>driver := None\<rparr>)) MakeDriver))"
  by (simp add: selenium_defs split: sum.split option.split)

theorem C8_witness:
  "ensure_driver no_chrome (init_sys SITES) = (None, (init_sys SITES)\<lparr>trace := [MakeDriver]\<rparr>)
   \<and> check_with_selenium sample_hash no_chrome js_app (init_sys SITES)
       = ((False, NoDriver), (init_sys SITES)\<lparr>trace := [MakeDriver]\<rparr>)
   \<and> is_error NoDriver
   \<and> driver ((init_sys SITES)\<lparr>trace := [MakeDriver]\<rparr>) = None
   \<and> count_list (trace (snd (check_with_selenium sample_hash no_chrome js_app
         ((init_sys SITES)\<lparr>trace := [MakeDriver]\<rparr>)))) MakeDriver = 2"
proof -
  have h1: "driver (init_sys SITES) = None"
    by (simp add: init_sys_def)
  have h2: "make_result no_chrome = Inl (Exception ''no chrome'')"
    by (simp add: no_chrome_def ok_inp_def)
  have eq: "(log MakeDriver (init_sys SITES))\<lparr>driver := None\<rparr> = (init_sys SITES)\<lparr>trace := [MakeDriver]\<rparr>"
    by (simp add: log_def init_sys_def)
  from C8_construction_failure [OF h1 h2, of sample_hash js_app]
  show ?thesis unfolding eq by simp
qed

text \<open>
  What the conditional check does to the entry of its site, and the request it sends: the
  last-check time stays; the validator stays, or becomes the \<^verbatim>\<open>ETag\<close> header of a 200
  response; one request is sent, with the headers made from the entry before the check.
\<close>

lemma requests_effect:
  "STATE s (name site) = Some st \<Longrightarrow>
   \<exists>res s' st'. check_with_requests H i site s = Inr (res, s')
     \<and> STATE s' (name site) = Some st' \<and> last_run st' = last_run st
     \<and> (etag st' = etag st
         \<or> (\<exists>r. get_result i = Inr r \<and> status_code r = 200 \<and> etag_header r = etag st'
               \<and> etag st' \<noteq> None))
     \<and> http_gets (trace s') = (url site, request_headers st) # http_gets (trace s)"
  by (simp add: check_with_requests_def Let_def split: sum.split option.split) auto

text \<open>
  Claim C10, as stated, fails for the empty validator. A run of the scheduler on
  \<^verbatim>\<open>StaticSite\<close> alone: the first response is 200 with the header \<^verbatim>\<open>ETag\<close> empty, which is
  stored; the second, 300 seconds later, is 200 without \<^verbatim>\<open>ETag\<close>, and the stored
  validator stays the empty string; the third request, as the two before it, is sent with
  no \<^verbatim>\<open>If-None-Match\<close> header, since the empty string is false in
  \<^verbatim>\<open>if state.get("etag")\<close>. Each pair is the stored validator at the end of the run and
  the requests of the run, oldest first.
\<close>

theorem C10_empty_validator_not_sent:
  "map_sum id (\<lambda>s. (map_option etag (STATE s ''StaticSite''), rev (http_gets (trace s))))
     (monitor_loop sample_hash [static_site]
        [[ok_inp 0 ''X'' (Some [])], [ok_inp 300000000 ''XY'' None]]
        (init_sys [static_site]))
     = Inr (Some (Some []),
            [(''https://example.com/static'', []), (''https://example.com/static'', [])])
   \<and> map_sum id (\<lambda>s. (map_option etag (STATE s ''StaticSite''), rev (http_gets (trace s))))
     (monitor_loop sample_hash [static_site]
        [[ok_inp 0 ''X'' (Some [])], [ok_inp 300000000 ''XY'' None],
         [ok_inp 600000000 ''XYZ'' None]]
        (init_sys [static_site]))
     = Inr (Some (Some []),
            [(''https://example.com/static'', []), (''https://example.com/static'', []),
             (''https://example.com/static'', [])])"
  by (simp add: visit_def due_characterised check_with_requests_def Let_def example_defs log_def)

text \<open>
  Claim C10, amended. Once a validator is stored for a site, no conditional check clears
  it; when a 200 response carries no \<^verbatim>\<open>ETag\<close> header the stored validator is retained
  unchanged, and the next conditional check of the site sends one request, with the
  validator as \<^verbatim>\<open>If-None-Match\<close> header when the validator is not the empty string, and
  with no header when it is.
\<close>

theorem C10_validator_kept_and_sent_when_nonempty:
  "STATE s (name site) = Some st \<Longrightarrow> etag st = Some v \<Longrightarrow>
   \<exists>res s' st'. check_with_requests H i site s = Inr (res, s')
     \<and> STATE s' (name site) = Some st' \<and> etag st' \<noteq> None
     \<and> (get_result i = Inr r \<and> status_code r = 200 \<and> etag_header r = None
          \<longrightarrow> etag st' = Some v
            \<and> (\<forall>j. \<exists>resj sj. check_with_requests H j site s' = Inr (resj, sj)
                  \<and> http_gets (trace sj)
                      = (url site, if v = [] then [] else [(''If-None-Match'', v)])
                        # http_gets (trace s')))"
proof -
  assume a: "STATE s (name site) = Some st" and v: "etag st = Some v"
  from requests_effect [OF a, of H i]
  obtain res s' st' where
    run: "check_with_requests H i site s = Inr (res, s')" and
    st': "STATE s' (name site) = Some st'" and
    e: "etag st' = etag st
         \<or> (\<exists>r. get_result i = Inr r \<and> status_code r = 200 \<and> etag_header r = etag st'
               \<and> etag st' \<noteq> None)"
    by blast
  have kept: "etag st' \<noteq> None"
    using e v by auto
  have next_req: "etag st' = Some v \<Longrightarrow>
      \<exists>resj sj. check_with_requests H j site s' = Inr (resj, sj)
        \<and> http_gets (trace sj)
            = (url site, if v = [] then [] else [(''If-None-Match'', v)]) # http_gets (trace s')"
    for j
    using requests_effect [OF st', of H j] by (auto simp: request_headers_def)
  have same: "etag st' = Some v"
    if "get_result i = Inr r \<and> status_code r = 200 \<and> etag_header r = None"
    using e v that by auto
  show ?thesis
    using run st' kept same next_req by blast
qed

theorem C10_witness:
  "\<exists>res s' st'.
     check_with_requests sample_hash (ok_inp 300000000 ''XY'' None) static_site (seen ''v1'')
       = Inr (res, s')
     \<and> STATE s' ''StaticSite'' = Some st' \<and> etag st' = Some ''v1''
     \<and> (\<forall>j. \<exists>resj sj. check_with_requests sample_hash j static_site s' = Inr (resj, sj)
           \<and> http_gets (trace sj)
               = (''https://example.com/static'', [(''If-None-Match'', ''v1'')])
                 # http_gets (trace s'))"
proof -
  have h1: "STATE (seen ''v1'') (name static_site)
      = Some \<lparr>last_run = Some 0, etag = Some ''v1'',
              last_hash = Some (simple_hash sample_hash ''X'')\<rparr>"
    by (simp add: seen_def static_site_def)
  have h2: "etag \<lparr>last_run = Some 0, etag = Some ''v1'',
              last_hash = Some (simple_hash sample_hash ''X'')\<rparr> = Some ''v1''"
    by simp
  have h3: "get_result (ok_inp 300000000 ''XY'' None)
        = Inr \<lparr>status_code = 200, text_of = ''XY'', etag_header = None\<rparr>
      \<and> status_code \<lparr>status_code = 200, text_of = ''XY'', etag_header = None\<rparr> = 200
      \<and> etag_header \<lparr>status_code = 200, text_of = ''XY'', etag_header = None\<rparr> = None"
    by (simp add: ok_inp_def)
  from C10_validator_kept_and_sent_when_nonempty
      [OF h1 h2, of sample_hash "ok_inp 300000000 ''XY'' None"
        "\<lparr>status_code = 200, text_of = ''XY'', etag_header = None\<rparr>"] h3
  show ?thesis by (simp add: static_site_def) blast
qed

section \<open>Properties of the scheduler\<close>

lemma daily_round:
  "round H (zip [daily_site] r) (init_sys [daily_site]) = Inr (init_sys [daily_site])"
  by (cases r) (simp_all add: visit_def due_characterised daily_site_def init_sys_def init_state_def)

lemma daily_site_never_checked:
  "monitor_loop H [daily_site] ins (init_sys [daily_site]) = Inr (init_sys [daily_site])"
  by (induction ins) (simp_all add: daily_round)

text \<open>
  Claim C1 says that a site never checked is due at once, whatever its interval. The
  scheduler takes one day before \<^verbatim>\<open>now\<close> for the missing last-check time, so a site with
  an interval of 86401 seconds that was never checked is not due: a visit leaves the
  state as it is, no check is dispatched, and three rounds spread over two days dispatch
  none either.
\<close>

theorem C1_never_checked_site_not_due:
  "map_option last_run (STATE (init_sys [daily_site]) ''Daily'') = Some None
   \<and> interval daily_site = 86401
   \<and> \<not> due 0 daily_site init_state
   \<and> visit sample_hash (ok_inp 0 ''X'' None) daily_site (init_sys [daily_site])
       = Inr (init_sys [daily_site])
   \<and> monitor_loop sample_hash [daily_site]
        [[ok_inp 0 ''X'' None], [ok_inp 86401000000 ''X'' None],
         [ok_inp 172802000000 ''X'' None]]
        (init_sys [daily_site])
       = Inr (init_sys [daily_site])
   \<and> trace (init_sys [daily_site]) = []"
  by (simp add: visit_def due_characterised Let_def daily_site_def init_sys_def init_state_def
      ok_inp_def)

text \<open>
  Neither check logs a dispatch or assigns a last-check time, so both keep the invariant
  of the scheduler, and the sites that have an entry in \<^verbatim>\<open>STATE\<close>.
\<close>

lemma requests_sched:
  "(case check_with_requests H i site s of
      Inl e \<Rightarrow> STATE s (name site) = None
    | Inr (res, s') \<Rightarrow>
        last_dispatch n (trace s') = last_dispatch n (trace s)
        \<and> interval_floor (trace s') = interval_floor (trace s)
        \<and> map_option last_run (STATE s' m) = map_option last_run (STATE s m))"
  by (simp add: check_with_requests_def Let_def split: option.split sum.split)

lemma selenium_sched:
  "(case check_with_selenium H i site s of
      (res, s') \<Rightarrow>
        last_dispatch n (trace s') = last_dispatch n (trace s)
        \<and> interval_floor (trace s') = interval_floor (trace s)
        \<and> map_option last_run (STATE s' m) = map_option last_run (STATE s m))"
  by (simp add: selenium_defs split: option.split sum.split prod.split)

lemma requests_keeps_inv:
  assumes "check_with_requests H i site s = Inr (res, s')"
  shows "sched_inv s' = sched_inv s"
    and "checked_bounded sites s' = checked_bounded sites s"
    and "(STATE s' m = None) = (STATE s m = None)"
proof -
  have a: "last_dispatch n (trace s') = last_dispatch n (trace s)"
      "interval_floor (trace s') = interval_floor (trace s)"
      "map_option last_run (STATE s' k) = map_option last_run (STATE s k)" for n k
    using requests_sched [where H=H and i=i and site=site and s=s and n=n and m=k] assms
    by simp_all
  show "sched_inv s' = sched_inv s"
    by (simp add: sched_inv_def a)
  show "checked_bounded sites s' = checked_bounded sites s"
    by (simp add: checked_bounded_def a)
  show "(STATE s' m = None) = (STATE s m = None)"
    using a(3) [of m] by (metis option.map_disc_iff)
qed

lemma selenium_keeps_inv:
  assumes "check_with_selenium H i site s = (res, s')"
  shows "sched_inv s' = sched_inv s"
    and "checked_bounded sites s' = checked_bounded sites s"
    and "(STATE s' m = None) = (STATE s m = None)"
proof -
  have a: "last_dispatch n (trace s') = last_dispatch n (trace s)"
      "interval_floor (trace s') = interval_floor (trace s)"
      "map_option last_run (STATE s' k) = map_option last_run (STATE s k)" for n k
    using selenium_sched [where H=H and i=i and site=site and s=s and n=n and m=k] assms
    by simp_all
  show "sched_inv s' = sched_inv s"
    by (simp add: sched_inv_def a)
  show "checked_bounded sites s' = checked_bounded sites s"
    by (simp add: checked_bounded_def a)
  show "(STATE s' m = None) = (STATE s m = None)"
    using a(3) [of m] by (metis option.map_disc_iff)
qed

text \<open>
  The state with which the scheduler calls the check of a due site. A site dispatched
  for the first time has an interval of at most a day; with unique names a site that has
  a last-check time was dispatched before.
\<close>

lemma dispatch_keeps_inv:
  assumes wf: "well_formed sites" and mem: "site \<in> set sites"
    and inv: "sched_inv s" and bd: "checked_bounded sites s"
    and st: "STATE s (name site) = Some state"
    and d: "due now site state"
  defines "s1 \<equiv> log (Dispatch site now)
           (s\<lparr>STATE := (STATE s)(name site \<mapsto> state\<lparr>last_run := Some now\<rparr>)\<rparr>)"
  shows "sched_inv s1" and "checked_bounded sites s1"
proof -
  from wf mem have nonneg: "0 \<le> interval site"
    by (simp add: well_formed_def)
  have bound: "interval site \<le> 2 ^ 34"
  proof (cases "last_run state")
    case None
    with d have "interval site \<le> 86400"
      by (simp add: due_never_checked)
    then show ?thesis
      by simp
  next
    case (Some t)
    with bd mem st show ?thesis
      by (simp add: checked_bounded_def)
  qed
  have floor: "now - t0 \<ge> interval site * 1000000"
    if "last_dispatch (name site) (trace s) = Some t0" for t0
  proof -
    from inv that have "map_option last_run (STATE s (name site)) = Some (Some t0)"
      by (simp add: sched_inv_def)
    with st have "last_run state = Some t0"
      by simp
    with d nonneg bound show ?thesis
      by (simp add: due_checked_before)
  qed
  from inv show "sched_inv s1"
    by (auto simp: s1_def sched_inv_def floor split: option.split)
  have "interval y \<le> 2 ^ 34" if y: "y \<in> set sites" and same: "name y = name site" for y
  proof -
    from wf consider "distinct (map name sites)" | "\<forall>site \<in> set sites. interval site \<le> 2 ^ 34"
      by (auto simp: well_formed_def)
    then show ?thesis
    proof cases
      case 1
      then have "inj_on name (set sites)"
        by (simp add: distinct_map)
      with y mem same have "y = site"
        by (auto dest: inj_onD)
      with bound show ?thesis
        by simp
    next
      case 2
      with y show ?thesis
        by simp
    qed
  qed
  with bd show "checked_bounded sites s1"
    by (auto simp: s1_def checked_bounded_def)
qed

lemma visit_keeps_inv:
  assumes wf: "well_formed sites" and mem: "site \<in> set sites"
    and inv: "sched_inv s" and bd: "checked_bounded sites s"
    and st: "STATE s (name site) \<noteq> None"
  shows "\<exists>s'. visit H i site s = Inr s' \<and> sched_inv s' \<and> checked_bounded sites s'
           \<and> (\<forall>m. STATE s m \<noteq> None \<longrightarrow> STATE s' m \<noteq> None)"
proof -
  from st obtain state where state: "STATE s (name site) = Some state"
    by auto
  show ?thesis
  proof (cases "due (clock i) site state")
    case False
    with state inv bd show ?thesis
      by (simp add: visit_def Let_def)
  next
    case True
    define s1 where "s1 = log (Dispatch site (clock i))
        (s\<lparr>STATE := (STATE s)(name site \<mapsto> state\<lparr>last_run := Some (clock i)\<rparr>)\<rparr>)"
    have inv1: "sched_inv s1" and bd1: "checked_bounded sites s1"
      unfolding s1_def by (rule dispatch_keeps_inv [OF wf mem inv bd state True])+
    have dom1: "STATE s m \<noteq> None \<longrightarrow> STATE s1 m \<noteq> None" for m
      by (simp add: s1_def)
    have here: "STATE s1 (name site) \<noteq> None"
      by (simp add: s1_def)
    have v: "visit H i site s =
        (if \<not> needs_js site then
           (case check_with_requests H i site s1 of
              Inl e \<Rightarrow> Inl e
            | Inr (res, s2) \<Rightarrow> Inr s2)
         else (case check_with_selenium H i site s1 of (res, s2) \<Rightarrow> Inr s2))"
      using state True by (simp add: visit_def Let_def s1_def)
    show ?thesis
    proof (cases "needs_js site")
      case False
      from requests_sched [where H=H and i=i and site=site and s=s1] here
      obtain res s2 where r: "check_with_requests H i site s1 = Inr (res, s2)"
        by (cases "check_with_requests H i site s1") auto
      have inv2: "sched_inv s2" and bd2: "checked_bounded sites s2"
        using requests_keeps_inv(1,2) [OF r] inv1 bd1 by simp_all
      have dom2: "STATE s m \<noteq> None \<longrightarrow> STATE s2 m \<noteq> None" for m
        using requests_keeps_inv(3) [OF r, of m] dom1 [of m] by blast
      from v False r have "visit H i site s = Inr s2"
        by simp
      with inv2 bd2 dom2 show ?thesis
        by blast
    next
      case js: True
      obtain res s2 where r: "check_with_selenium H i site s1 = (res, s2)"
        by (cases "check_with_selenium H i site s1") auto
      have inv2: "sched_inv s2" and bd2: "checked_bounded sites s2"
        using selenium_keeps_inv(1,2) [OF r] inv1 bd1 by simp_all
      have dom2: "STATE s m \<noteq> None \<longrightarrow> STATE s2 m \<noteq> None" for m
        using selenium_keeps_inv(3) [OF r, of m] dom1 [of m] by blast
      from v js r have "visit H i site s = Inr s2"
        by simp
      with inv2 bd2 dom2 show ?thesis
        by blast
    qed
  qed
qed

lemma round_keeps_inv:
  "well_formed sites \<Longrightarrow> sched_inv s \<Longrightarrow> checked_bounded sites s \<Longrightarrow>
   \<forall>p \<in> set ps. fst p \<in> set sites \<and> STATE s (name (fst p)) \<noteq> None \<Longrightarrow>
   \<exists>s'. round H ps s = Inr s' \<and> sched_inv s' \<and> checked_bounded sites s'
     \<and> (\<forall>m. STATE s m \<noteq> None \<longrightarrow> STATE s' m \<noteq> None)"
proof (induction ps arbitrary: s)
  case Nil
  then show ?case by simp
next
  case (Cons p ps)
  obtain site i where p: "p = (site, i)"
    by (cases p)
  from Cons.prems(4) p have mem: "site \<in> set sites" and st: "STATE s (name site) \<noteq> None"
    by simp_all
  from visit_keeps_inv [OF Cons.prems(1) mem Cons.prems(2,3) st, of H i]
  obtain s1 where v: "visit H i site s = Inr s1" and inv1: "sched_inv s1"
    and bd1: "checked_bounded sites s1"
    and dom1: "\<forall>m. STATE s m \<noteq> None \<longrightarrow> STATE s1 m \<noteq> None"
    by blast
  from Cons.prems(4) dom1
  have "\<forall>q \<in> set ps. fst q \<in> set sites \<and> STATE s1 (name (fst q)) \<noteq> None"
    by simp
  from Cons.IH [OF Cons.prems(1) inv1 bd1 this]
  obtain s' where "round H ps s1 = Inr s'" "sched_inv s'" "checked_bounded sites s'"
    "\<forall>m. STATE s1 m \<noteq> None \<longrightarrow> STATE s' m \<noteq> None"
    by blast
  with v dom1 p show ?case
    by simp
qed

lemma monitor_loop_keeps_inv:
  "well_formed sites \<Longrightarrow> sched_inv s \<Longrightarrow> checked_bounded sites s \<Longrightarrow>
   \<forall>site \<in> set sites. STATE s (name site) \<noteq> None \<Longrightarrow>
   \<exists>s'. monitor_loop H sites ins s = Inr s' \<and> sched_inv s'"
proof (induction ins arbitrary: s)
  case Nil
  then show ?case by simp
next
  case (Cons r rs)
  have "\<forall>p \<in> set (zip sites r). fst p \<in> set sites \<and> STATE s (name (fst p)) \<noteq> None"
    using Cons.prems(4) by (auto dest: set_zip_leftD)
  from round_keeps_inv [OF Cons.prems(1,2,3) this, of H]
  obtain s1 where r1: "round H (zip sites r) s = Inr s1" and inv1: "sched_inv s1"
    and bd1: "checked_bounded sites s1"
    and dom1: "\<forall>m. STATE s m \<noteq> None \<longrightarrow> STATE s1 m \<noteq> None"
    by blast
  from Cons.prems(4) dom1 have "\<forall>site \<in> set sites. STATE s1 (name site) \<noteq> None"
    by simp
  from Cons.IH [OF Cons.prems(1) inv1 bd1 this] r1 show ?case
    by simp
qed

lemma init_STATE_defined: "site \<in> set sites \<Longrightarrow> init_STATE sites (name site) \<noteq> None"
  by (induction sites) auto

lemma init_STATE_unchecked: "init_STATE sites n = Some z \<Longrightarrow> last_run z = None"
  by (induction sites) (auto simp: init_state_def split: if_splits)

lemma init_sys_inv: "sched_inv (init_sys sites)" "checked_bounded sites' (init_sys sites)"
  by (auto simp: sched_inv_def checked_bounded_def init_sys_def dest: init_STATE_unchecked)

lemma last_dispatch_append:
  "last_dispatch n (ys @ es) =
     (case last_dispatch n ys of None \<Rightarrow> last_dispatch n es | Some t \<Rightarrow> Some t)"
  by (induction n ys rule: last_dispatch.induct) simp_all

lemma interval_floor_suffix: "interval_floor (xs @ es) \<Longrightarrow> interval_floor es"
  by (induction xs rule: interval_floor.induct) simp_all

text \<open>
  What the interval floor says of two consecutive dispatches under one name, the later
  one of the site \<open>s2\<close> at \<open>t2\<close> and the earlier one at \<open>t1\<close>, with no dispatch under
  that name between them.
\<close>

lemma interval_floor_consecutive:
  assumes "interval_floor (xs @ Dispatch s2 t2 # ys @ Dispatch s1 t1 # zs)"
    and "name s1 = name s2" and "last_dispatch (name s2) ys = None"
  shows "t2 - t1 \<ge> interval s2 * 1000000"
proof -
  from assms(1) have "interval_floor (Dispatch s2 t2 # ys @ Dispatch s1 t1 # zs)"
    by (rule interval_floor_suffix)
  moreover have "last_dispatch (name s2) (ys @ Dispatch s1 t1 # zs) = Some t1"
    using assms(2,3) by (simp add: last_dispatch_append)
  ultimately show ?thesis
    by simp
qed

text \<open>
  Claim C4. The scheduler stores \<^verbatim>\<open>now\<close> as the last-check time of a due site before it
  calls the check, and no check assigns a last-check time. The sites are those of the
  data model: no interval is negative, and the names are unique (or, when they are not,
  no interval is above \<open>2 ^ 34\<close> seconds). Then in every run from the initial state,
  whatever the clock reads and whatever the checks do (also when they raise or report an
  error): the run raises no exception; the log keeps the interval floor, that is, of two
  consecutive dispatches under one name the later comes at least the interval of its
  site after the earlier; and the last-check time stored for a site is the time of its
  latest dispatch.
\<close>

theorem C4_interval_floor:
  assumes "\<forall>site \<in> set sites. 0 \<le> interval site"
    and "distinct (map name sites) \<or> (\<forall>site \<in> set sites. interval site \<le> 2 ^ 34)"
  shows "\<exists>s. monitor_loop H sites ins (init_sys sites) = Inr s
     \<and> interval_floor (trace s)
     \<and> (\<forall>xs s2 t2 ys s1 t1 zs.
           trace s = xs @ Dispatch s2 t2 # ys @ Dispatch s1 t1 # zs
           \<and> name s1 = name s2 \<and> last_dispatch (name s2) ys = None
           \<longrightarrow> t2 - t1 \<ge> interval s2 * 1000000)
     \<and> (\<forall>n t. last_dispatch n (trace s) = Some t
           \<longrightarrow> map_option last_run (STATE s n) = Some (Some t))"
proof -
  from assms have wf: "well_formed sites"
    by (simp add: well_formed_def)
  have "\<forall>site \<in> set sites. STATE (init_sys sites) (name site) \<noteq> None"
    by (simp add: init_sys_def init_STATE_defined)
  from monitor_loop_keeps_inv [OF wf init_sys_inv this, of H ins]
  obtain s where run: "monitor_loop H sites ins (init_sys sites) = Inr s"
    and inv: "sched_inv s"
    by blast
  from inv have floor: "interval_floor (trace s)"
    and stored: "\<forall>n t. last_dispatch n (trace s) = Some t
           \<longrightarrow> map_option last_run (STATE s n) = Some (Some t)"
    by (simp_all add: sched_inv_def)
  have "t2 - t1 \<ge> interval s2 * 1000000"
    if "trace s = xs @ Dispatch s2 t2 # ys @ Dispatch s1 t1 # zs"
      and "name s1 = name s2" and "last_dispatch (name s2) ys = None"
    for xs s2 t2 ys s1 t1 zs
    using floor that by (simp add: interval_floor_consecutive)
  with run floor stored show ?thesis
    by blast
qed

lemmas run_defs = visit_def due_characterised check_with_requests_def selenium_defs
  example_defs log_def

theorem C4_witness:
  "\<exists>s. monitor_loop sample_hash SITES example_run (init_sys SITES) = Inr s
     \<and> interval_floor (trace s)
     \<and> rev (dispatches (trace s))
         = [(''StaticSite'', 0), (''JSApp'', 2000000), (''StaticSite'', 300000000),
            (''JSApp'', 602000000)]
     \<and> last_dispatch ''JSApp'' (trace s) = Some 602000000
     \<and> map_option last_run (STATE s ''JSApp'') = Some (Some 602000000)"
proof -
  have h1: "\<forall>site \<in> set SITES. 0 \<le> interval site"
    by (simp add: SITES_def static_site_def js_app_def)
  have h2: "distinct (map name SITES) \<or> (\<forall>site \<in> set SITES. interval site \<le> 2 ^ 34)"
    by (simp add: SITES_def static_site_def js_app_def)
  from C4_interval_floor [OF h1 h2, of sample_hash example_run]
  obtain s where run: "monitor_loop sample_hash SITES example_run (init_sys SITES) = Inr s"
    and floor: "interval_floor (trace s)"
    and stored: "\<And>n t. last_dispatch n (trace s) = Some t
           \<Longrightarrow> map_option last_run (STATE s n) = Some (Some t)"
    by blast
  have "map_sum id (\<lambda>s. (rev (dispatches (trace s)), last_dispatch ''JSApp'' (trace s)))
          (monitor_loop sample_hash SITES example_run (init_sys SITES))
        = Inr ([(''StaticSite'', 0), (''JSApp'', 2000000), (''StaticSite'', 300000000),
                (''JSApp'', 602000000)], Some 602000000)"
    by (simp add: example_run_def run_defs)
  with run have ev: "rev (dispatches (trace s))
         = [(''StaticSite'', 0), (''JSApp'', 2000000), (''StaticSite'', 300000000),
            (''JSApp'', 602000000)]" "last_dispatch ''JSApp'' (trace s) = Some 602000000"
    by simp_all
  from stored [OF ev(2)] run floor ev show ?thesis
    by blast
qed

text \<open>
  Outside the hypotheses of the theorem the floor can fail. From \<open>2 ^ 34 + 1\<close> seconds
  on, the rounded quotient reaches the interval one microsecond before the count does.
  With two entries under one name, the second sets the last-check time of the name, and
  the first, with an interval of \<open>2 ^ 34 + 1\<close> seconds, is dispatched one microsecond
  before that interval has elapsed.
\<close>

lemma rounding_reaches_interval_early:
  "total_seconds (17179869185 * 1000000 - 1) = 17179869185
   \<and> due (17179869185 * 1000000 - 1)
        \<lparr>name = ''Twin'', url = ''https://example.com/a'', interval = 17179869185,
         needs_js = False\<rparr>
        \<lparr>last_run = Some 0, etag = None, last_hash = None\<rparr>"
  by (simp add: due_def total_seconds_eval)

lemma twin_names_break_floor:
  "map_sum id (\<lambda>s. (rev (dispatches (trace s)), interval_floor (trace s)))
     (monitor_loop sample_hash twin_sites
        [[ok_inp 0 ''X'' None, ok_inp 0 ''X'' None],
         [ok_inp (17179869185 * 1000000 - 1) ''X'' None]]
        (init_sys twin_sites))
   = Inr ([(''Twin'', 0), (''Twin'', 17179869184999999)], False)"
  by (simp add: visit_def due_def one_day_def total_seconds_eval check_with_requests_def
      example_defs twin_sites_def log_def)

section \<open>Properties of the rendering driver\<close>

text \<open>
  A rendering check that starts without a driver calls \<^verbatim>\<open>make_driver\<close> once. A retired
  driver object stays retired, and is not used for rendering, through every check, visit,
  round and run.
\<close>

lemma selenium_rebuilds:
  "driver s = None \<Longrightarrow>
   count_list (trace (snd (check_with_selenium H j page s))) MakeDriver
     = Suc (count_list (trace s) MakeDriver)"
  by (simp add: selenium_defs split: sum.split option.split)

lemma requests_keeps_retired:
  "(case check_with_requests H i site s of
      Inl e \<Rightarrow> True
    | Inr (res, s') \<Rightarrow>
        next_handle s' = next_handle s \<and> driver s' = driver s
        \<and> calls_on d (trace s') = calls_on d (trace s))"
  by (simp add: check_with_requests_def Let_def split: option.split sum.split)

lemma selenium_keeps_retired:
  "retired d s \<Longrightarrow>
   (case check_with_selenium H i site s of
      (res, s') \<Rightarrow> retired d s' \<and> calls_on d (trace s') = calls_on d (trace s))"
  by (auto simp: retired_def selenium_defs split: option.split sum.split)

lemma visit_keeps_retired:
  assumes "retired d s" and "visit H i site s = Inr s'"
  shows "retired d s' \<and> calls_on d (trace s') = calls_on d (trace s)"
proof (cases "STATE s (name site)")
  case None
  with assms(2) show ?thesis by (simp add: visit_def)
next
  case (Some state)
  show ?thesis
  proof (cases "due (clock i) site state")
    case False
    with Some assms show ?thesis by (simp add: visit_def Let_def)
  next
    case True
    define s1 where "s1 = log (Dispatch site (clock i))
        (s\<lparr>STATE := (STATE s)(name site \<mapsto> state\<lparr>last_run := Some (clock i)\<rparr>)\<rparr>)"
    have r1: "retired d s1" and c1: "calls_on d (trace s1) = calls_on d (trace s)"
      using assms(1) by (simp_all add: s1_def retired_def)
    have v: "visit H i site s =
        (if \<not> needs_js site then
           (case check_with_requests H i site s1 of
              Inl e \<Rightarrow> Inl e
            | Inr (res, s2) \<Rightarrow> Inr s2)
         else (case check_with_selenium H i site s1 of (res, s2) \<Rightarrow> Inr s2))"
      using Some True by (simp add: visit_def Let_def s1_def)
    show ?thesis
    proof (cases "needs_js site")
      case False
      with v assms(2) obtain res where "check_with_requests H i site s1 = Inr (res, s')"
        by (auto split: sum.splits)
      with requests_keeps_retired [where H=H and i=i and site=site and s=s1 and d=d] r1 c1
      show ?thesis by (simp add: retired_def)
    next
      case True
      with v assms(2) obtain res where "check_with_selenium H i site s1 = (res, s')"
        by (auto split: prod.splits)
      with selenium_keeps_retired [OF r1, of H i site] c1
      show ?thesis by simp
    qed
  qed
qed

lemma round_keeps_retired:
  "retired d s \<Longrightarrow> round H ps s = Inr s' \<Longrightarrow>
   retired d s' \<and> calls_on d (trace s') = calls_on d (trace s)"
proof (induction ps arbitrary: s)
  case Nil
  then show ?case by simp
next
  case (Cons p ps)
  obtain site i where p: "p = (site, i)"
    by (cases p)
  from Cons.prems(2) p obtain s1 where v: "visit H i site s = Inr s1"
    and r: "round H ps s1 = Inr s'"
    by (auto split: sum.splits)
  from visit_keeps_retired [OF Cons.prems(1) v]
  have "retired d s1" and c: "calls_on d (trace s1) = calls_on d (trace s)"
    by simp_all
  from Cons.IH [OF this(1) r] c show ?case
    by simp
qed

lemma monitor_loop_keeps_retired:
  "retired d s \<Longrightarrow> monitor_loop H sites ins s = Inr s' \<Longrightarrow>
   retired d s' \<and> calls_on d (trace s') = calls_on d (trace s)"
proof (induction ins arbitrary: s)
  case Nil
  then show ?case by simp
next
  case (Cons r rs)
  from Cons.prems(2) obtain s1 where r1: "round H (zip sites r) s = Inr s1"
    and l: "monitor_loop H sites rs s1 = Inr s'"
    by (auto split: sum.splits)
  from round_keeps_retired [OF Cons.prems(1) r1]
  have "retired d s1" and c: "calls_on d (trace s1) = calls_on d (trace s)"
    by simp_all
  from Cons.IH [OF this(1) l] c show ?case
    by simp
qed

text \<open>The handle that \<^verbatim>\<open>ensure_driver\<close> returns is in \<^verbatim>\<open>driver\<close> and was constructed.\<close>

lemma ensure_driver_handle:
  "handles_ok s \<Longrightarrow> ensure_driver i s = (Some d, s1) \<Longrightarrow>
   driver s1 = Some d \<and> d < next_handle s1 \<and> STATE s1 = STATE s"
  by (auto simp: handles_ok_def ensure_driver_def make_driver_def Let_def
      split: option.splits sum.splits)

lemma render_error_result:
  assumes e: "ensure_driver i s = (Some d, s1)"
    and r: "nav_result i = Inl e \<or> (nav_result i = Inr () \<and> source_result i = Inl e)"
  shows "check_with_selenium H i site s
           = ((False, Error e),
              s1\<lparr>driver := None, trace := Quit d # DriverGet d (url site) # trace s1\<rparr>)
         \<or> check_with_selenium H i site s
           = ((False, Error e),
              s1\<lparr>driver := None,
                 trace := Quit d # PageSource d # DriverGet d (url site) # trace s1\<rparr>)"
  using r
proof
  assume "nav_result i = Inl e"
  with e show ?thesis
    by (simp add: check_with_selenium_def selenium_error_def Let_def log_def
        split: sum.split)
next
  assume "nav_result i = Inr () \<and> source_result i = Inl e"
  with e show ?thesis
    by (simp add: check_with_selenium_def selenium_error_def Let_def log_def
        split: sum.split)
qed

text \<open>
  Claim C5. A rendering check that has the driver object \<open>d\<close> and whose page load or page
  source raises \<open>e\<close> returns \<^verbatim>\<open>(False, f"error: {e}")\<close>, whether \<^verbatim>\<open>d.quit()\<close> raises or
  returns; its last call is \<^verbatim>\<open>d.quit()\<close>, and it leaves \<^verbatim>\<open>driver\<close> absent. The next
  rendering check, whatever its site and environment, calls \<^verbatim>\<open>make_driver\<close> once more;
  and no run of the scheduler from that state ever calls \<^verbatim>\<open>get\<close> or \<^verbatim>\<open>page_source\<close> on
  \<open>d\<close> again.
\<close>

theorem C5_render_error_rebuilds:
  assumes ok: "handles_ok s"
    and drv: "fst (ensure_driver i s) = Some d"
    and err: "nav_result i = Inl e \<or> (nav_result i = Inr () \<and> source_result i = Inl e)"
  shows "\<exists>s'. check_with_selenium H i site s = ((False, Error e), s')
           \<and> (\<forall>q. check_with_selenium H (i\<lparr>quit_result := q\<rparr>) site s = ((False, Error e), s'))
           \<and> driver s' = None
           \<and> take 1 (trace s') = [Quit d]
           \<and> (\<forall>j page. count_list (trace (snd (check_with_selenium H j page s'))) MakeDriver
                  = Suc (count_list (trace s') MakeDriver))
           \<and> (\<forall>sites ins s2. monitor_loop H sites ins s' = Inr s2
                  \<longrightarrow> calls_on d (trace s2) = calls_on d (trace s'))"
proof -
  obtain s1 where e: "ensure_driver i s = (Some d, s1)"
    using drv by (cases "ensure_driver i s") simp
  from ensure_driver_handle [OF ok e] have lt: "d < next_handle s1"
    by simp
  from render_error_result [OF e err, of H site]
  obtain es where run: "check_with_selenium H i site s
      = ((False, Error e), s1\<lparr>driver := None, trace := Quit d # es\<rparr>)"
    by (elim disjE) blast+
  define s' where "s' = s1\<lparr>driver := None, trace := Quit d # es\<rparr>"
  have quit: "check_with_selenium H (i\<lparr>quit_result := q\<rparr>) site s
      = check_with_selenium H i site s" for q
    by (simp add: selenium_defs split: sum.split option.split)
  have absent: "driver s' = None" and top: "take 1 (trace s') = [Quit d]"
    by (simp_all add: s'_def)
  have ret: "retired d s'"
    using lt by (simp add: retired_def s'_def)
  have again: "count_list (trace (snd (check_with_selenium H j page s'))) MakeDriver
      = Suc (count_list (trace s') MakeDriver)" for j page
    by (rule selenium_rebuilds [OF absent])
  have never: "calls_on d (trace s2) = calls_on d (trace s')"
    if "monitor_loop H sites ins s' = Inr s2" for sites ins s2
    using monitor_loop_keeps_retired [OF ret that] by simp
  from run quit absent top again never show ?thesis
    unfolding s'_def [symmetric] by auto
qed


theorem C5_witness:
  "\<exists>s'. check_with_selenium sample_hash failing js_app (init_sys SITES)
           = ((False, Error (Exception ''timeout'')), s')
     \<and> check_with_selenium sample_hash (failing\<lparr>quit_result := Inl (Exception ''dead'')\<rparr>)
           js_app (init_sys SITES)
           = ((False, Error (Exception ''timeout'')), s')
     \<and> driver s' = None
     \<and> take 1 (trace s') = [Quit 0]
     \<and> count_list
           (trace (snd (check_with_selenium sample_hash (ok_inp 600000000 ''<html>'' None)
                          js_app s')))
           MakeDriver
         = Suc (count_list (trace s') MakeDriver)"
proof -
  have h1: "handles_ok (init_sys SITES)"
    by (simp add: handles_ok_def init_sys_def)
  have h2: "fst (ensure_driver failing (init_sys SITES)) = Some 0"
    by (simp add: ensure_driver_def make_driver_def Let_def example_defs)
  have h3: "nav_result failing = Inl (Exception ''timeout'')
      \<or> (nav_result failing = Inr () \<and> source_result failing = Inl (Exception ''timeout''))"
    by (simp add: failing_def ok_inp_def)
  from C5_render_error_rebuilds [OF h1 h2 h3, of sample_hash js_app]
  show ?thesis by blast
qed

text \<open>
  The hypothesis \<open>handles_ok\<close> of the theorem holds in every state the scheduler reaches.
\<close>

lemma requests_keeps_handles:
  "check_with_requests H i site s = Inr (res, s') \<Longrightarrow> handles_ok s' = handles_ok s"
  using requests_keeps_retired [where H=H and i=i and site=site and s=s and d=0]
  by (simp add: handles_ok_def split: option.split)

lemma selenium_keeps_handles:
  "handles_ok s \<Longrightarrow> handles_ok (snd (check_with_selenium H i site s))"
  by (auto simp: handles_ok_def selenium_defs split: option.split sum.split)

lemma dispatch_keeps_handles:
  "handles_ok (log e (s\<lparr>STATE := m\<rparr>)) = handles_ok s"
  by (simp add: handles_ok_def split: option.split)

lemma visit_keeps_handles:
  assumes ok: "handles_ok s" and v: "visit H i site s = Inr s'"
  shows "handles_ok s'"
proof (cases "STATE s (name site)")
  case None
  with v show ?thesis by (simp add: visit_def)
next
  case (Some state)
  show ?thesis
  proof (cases "due (clock i) site state")
    case False
    with Some v ok show ?thesis by (simp add: visit_def Let_def)
  next
    case True
    define s1 where "s1 = log (Dispatch site (clock i))
        (s\<lparr>STATE := (STATE s)(name site \<mapsto> state\<lparr>last_run := Some (clock i)\<rparr>)\<rparr>)"
    have ok1: "handles_ok s1"
      using ok by (simp add: s1_def dispatch_keeps_handles)
    have v1: "visit H i site s =
        (if \<not> needs_js site then
           (case check_with_requests H i site s1 of
              Inl e \<Rightarrow> Inl e
            | Inr (res, s2) \<Rightarrow> Inr s2)
         else Inr (snd (check_with_selenium H i site s1)))"
      using Some True by (simp add: visit_def Let_def s1_def split: prod.split)
    show ?thesis
    proof (cases "needs_js site")
      case False
      with v v1 obtain res where "check_with_requests H i site s1 = Inr (res, s')"
        by (auto split: sum.splits)
      from requests_keeps_handles [OF this] ok1 show ?thesis
        by simp
    next
      case True
      with v v1 have "s' = snd (check_with_selenium H i site s1)"
        by simp
      with selenium_keeps_handles [OF ok1, of H i site] show ?thesis
        by simp
    qed
  qed
qed

lemma round_keeps_handles:
  "handles_ok s \<Longrightarrow> round H ps s = Inr s' \<Longrightarrow> handles_ok s'"
proof (induction ps arbitrary: s)
  case Nil
  then show ?case by simp
next
  case (Cons p ps)
  obtain site i where p: "p = (site, i)"
    by (cases p)
  from Cons.prems(2) p obtain s1 where v: "visit H i site s = Inr s1"
    and r: "round H ps s1 = Inr s'"
    by (auto split: sum.splits)
  from Cons.IH [OF visit_keeps_handles [OF Cons.prems(1) v] r] show ?case .
qed

lemma monitor_loop_keeps_handles:
  "handles_ok s \<Longrightarrow> monitor_loop H sites ins s = Inr s' \<Longrightarrow> handles_ok s'"
proof (induction ins arbitrary: s)
  case Nil
  then show ?case by simp
next
  case (Cons r rs)
  from Cons.prems(2) obtain s1 where r1: "round H (zip sites r) s = Inr s1"
    and l: "monitor_loop H sites rs s1 = Inr s'"
    by (auto split: sum.splits)
  from Cons.IH [OF round_keeps_handles [OF Cons.prems(1) r1] l] show ?case .
qed

text \<open>Every state the scheduler reaches from the start satisfies \<open>handles_ok\<close>.\<close>

lemma reachable_handles_ok:
  "monitor_loop H sites ins (init_sys sites) = Inr s \<Longrightarrow> handles_ok s"
  by (rule monitor_loop_keeps_handles [of "init_sys sites"])
    (simp_all add: handles_ok_def init_sys_def)

end
